theory Spec2Isabelle
  imports Main
begin

section \<open>The chat hub of main.go\<close>

text \<open>
  The program keeps two package-level maps, \<open>clients\<close> (connection to display name) and
  \<open>onlineUsers\<close> (display name to \<open>true\<close>), an unbuffered channel \<open>broadcast\<close> and a mutex
  \<open>mu\<close>. One goroutine per connection runs \<open>handleConnections\<close>; one goroutine runs
  \<open>handleBroadcast\<close>. The model passes the package state explicitly. What the transport
  does (whether an upgrade, a read or a write succeeds, and in which order a \<open>range\<close> over a
  map yields its keys) is an argument of the functions.
\<close>

subsection \<open>Data\<close>

text \<open>A \<open>*websocket.Conn\<close>: only its identity matters.\<close>

type_synonym conn = nat

record Message =
  Type :: string
  Name :: string
  Content :: string
  Users :: "string list"

text \<open>The kinds of access the two maps see; used to record accesses made without \<open>mu\<close>.\<close>

datatype access = ReadClients | WriteClients | ReadOnline | WriteOnline

record server =
  clients :: "conn \<rightharpoonup> string"
  onlineUsers :: "string \<rightharpoonup> bool"
  broadcast :: "Message list"
  mu :: bool
  wire :: "conn \<Rightarrow> Message list"
  closed :: "conn set"
  unguarded :: "access list"

text \<open>
  \<open>broadcast\<close> holds the messages sent on the channel and not yet taken by
  \<open>handleBroadcast\<close>, oldest first. \<open>wire c\<close> is what \<open>WriteJSON\<close> has written successfully to
  connection \<open>c\<close>, \<open>closed\<close> the connections on which \<open>Close\<close> was called, and \<open>unguarded\<close>
  the accesses to the two maps made while \<open>mu\<close> was not held, in program order.
\<close>

definition init :: server where
  "init = \<lparr>clients = Map.empty, onlineUsers = Map.empty, broadcast = [], mu = False,
           wire = (\<lambda>c. []), closed = {}, unguarded = []\<rparr>"

subsection \<open>Primitive operations\<close>

definition Lock :: "server \<Rightarrow> server" where
  "Lock s = s\<lparr>mu := True\<rparr>"

definition Unlock :: "server \<Rightarrow> server" where
  "Unlock s = s\<lparr>mu := False\<rparr>"

definition touch :: "access \<Rightarrow> server \<Rightarrow> server" where
  "touch a s = (if mu s then s else s\<lparr>unguarded := unguarded s @ [a]\<rparr>)"

text \<open>\<open>clients[ws] = name\<close>, \<open>delete(clients, ws)\<close>, \<open>onlineUsers[name] = true\<close>,
  \<open>delete(onlineUsers, name)\<close>.\<close>

definition set_client :: "conn \<Rightarrow> string \<Rightarrow> server \<Rightarrow> server" where
  "set_client ws name s = touch WriteClients (s\<lparr>clients := (clients s)(ws \<mapsto> name)\<rparr>)"

definition delete_client :: "conn \<Rightarrow> server \<Rightarrow> server" where
  "delete_client ws s = touch WriteClients (s\<lparr>clients := (clients s)(ws := None)\<rparr>)"

definition set_online :: "string \<Rightarrow> server \<Rightarrow> server" where
  "set_online name s = touch WriteOnline (s\<lparr>onlineUsers := (onlineUsers s)(name \<mapsto> True)\<rparr>)"

definition delete_online :: "string \<Rightarrow> server \<Rightarrow> server" where
  "delete_online name s = touch WriteOnline (s\<lparr>onlineUsers := (onlineUsers s)(name := None)\<rparr>)"

text \<open>\<open>broadcast <- m\<close>, a successful \<open>c.WriteJSON(m)\<close>, and \<open>c.Close()\<close>.\<close>

definition chan_send :: "Message \<Rightarrow> server \<Rightarrow> server" where
  "chan_send m s = s\<lparr>broadcast := broadcast s @ [m]\<rparr>"

definition written :: "conn \<Rightarrow> Message \<Rightarrow> server \<Rightarrow> server" where
  "written c m s = s\<lparr>wire := (wire s)(c := wire s c @ [m])\<rparr>"

definition Close :: "conn \<Rightarrow> server \<Rightarrow> server" where
  "Close c s = s\<lparr>closed := insert c (closed s)\<rparr>"

text \<open>
  A \<open>range\<close> over a Go map yields every key once, in an order the runtime chooses. The
  order is the argument \<open>ks\<close>: the keys of \<open>m\<close> come out in the order they have in \<open>ks\<close>.
  \<open>iteration_order m ks\<close> says that \<open>ks\<close> is such an order for \<open>m\<close>.
\<close>

definition range_keys :: "('k \<rightharpoonup> 'v) \<Rightarrow> 'k list \<Rightarrow> 'k list" where
  "range_keys m ks = filter (\<lambda>k. m k \<noteq> None) ks"

definition iteration_order :: "('k \<rightharpoonup> 'v) \<Rightarrow> 'k list \<Rightarrow> bool" where
  "iteration_order m ks \<longleftrightarrow> distinct ks \<and> dom m \<subseteq> set ks"

subsection \<open>getOnlineUsers\<close>

definition getOnlineUsers :: "string list \<Rightarrow> server \<Rightarrow> string list \<times> server" where
  "getOnlineUsers ks s =
     (foldl (\<lambda>users user. users @ [user]) [] (range_keys (onlineUsers s) ks),
      touch ReadOnline s)"

subsection \<open>handleConnections\<close>

text \<open>The string constants of the source, as UTF-8 bytes.\<close>

definition online_users :: string where
  "online_users = ''online_users''"

definition joined_text :: string where
  "joined_text = [CHR 0x20, CHR 0xE5, CHR 0x8A, CHR 0xA0, CHR 0xE5, CHR 0x85, CHR 0xA5,
     CHR 0xE4, CHR 0xBA, CHR 0x86, CHR 0xE8, CHR 0x81, CHR 0x8A, CHR 0xE5, CHR 0xA4, CHR 0xA9,
     CHR 0xE5, CHR 0xAE, CHR 0xA4]"

definition left_text :: string where
  "left_text = [CHR 0x20, CHR 0xE9, CHR 0x9B, CHR 0xA2, CHR 0xE9, CHR 0x96, CHR 0x8B,
     CHR 0xE4, CHR 0xBA, CHR 0x86, CHR 0xE8, CHR 0x81, CHR 0x8A, CHR 0xE5, CHR 0xA4, CHR 0xA9,
     CHR 0xE5, CHR 0xAE, CHR 0xA4]"

text \<open>The three messages the handler builds itself; a field the composite literal leaves
  out has Go's zero value.\<close>

definition presence_msg :: "string list \<Rightarrow> Message" where
  "presence_msg us = \<lparr>Type = online_users, Name = [], Content = [], Users = us\<rparr>"

definition join_msg :: "string \<Rightarrow> Message" where
  "join_msg clientName =
     \<lparr>Type = ''join'', Name = [], Content = clientName @ joined_text, Users = []\<rparr>"

definition leave_msg :: "string \<Rightarrow> Message" where
  "leave_msg clientName =
     \<lparr>Type = ''leave'', Name = [], Content = clientName @ left_text, Users = []\<rparr>"

text \<open>How a run of the handler ends: \<open>log.Fatal\<close> ended the process, the function
  returned (and the deferred \<open>ws.Close()\<close> ran), or it is blocked in \<open>ReadJSON\<close>.\<close>

datatype outcome = Fatal | Returned | Reading

text \<open>Lines 49 to 54: the registration under the lock.\<close>

definition register :: "conn \<Rightarrow> string \<Rightarrow> string list \<Rightarrow> server \<Rightarrow> string list \<times> server" where
  "register ws clientName ks s =
     (let s1 = Lock s;
          s2 = set_online clientName s1;
          (currentOnlineUsers, s3) = getOnlineUsers ks s2;
          s4 = set_client ws clientName s3;
          s5 = Unlock s4
      in (currentOnlineUsers, s5))"

text \<open>Lines 61 to 64: the roll-back when the snapshot cannot be written.\<close>

definition rollback :: "conn \<Rightarrow> string \<Rightarrow> server \<Rightarrow> server" where
  "rollback ws clientName s =
     (let s1 = delete_client ws s;
          s2 = Lock s1;
          s3 = delete_online clientName s2
      in Unlock s3)"

text \<open>Lines 77 to 83: the clean-up and the two notices after a failed read.\<close>

definition leave :: "conn \<Rightarrow> string \<Rightarrow> string list \<Rightarrow> server \<Rightarrow> server" where
  "leave ws clientName ks s =
     (let s1 = delete_client ws s;
          s2 = Lock s1;
          s3 = delete_online clientName s2;
          (currentOnlineUsers, s4) = getOnlineUsers ks s3;
          s5 = Unlock s4;
          s6 = chan_send (leave_msg clientName) s5
      in chan_send (presence_msg currentOnlineUsers) s6)"

text \<open>Lines 87 to 89: what is forwarded for a message read from the client.\<close>

definition forward :: "string \<Rightarrow> Message \<Rightarrow> Message" where
  "forward clientName msg = msg\<lparr>Type := ''message'', Name := clientName\<rparr>"

text \<open>
  The loop of lines 72 to 91. \<open>reads\<close> is what the successive \<open>ReadJSON\<close> calls return,
  \<open>None\<close> for an error; when it is used up the handler is blocked in the next read.
\<close>

fun readLoop :: "conn \<Rightarrow> string \<Rightarrow> string list \<Rightarrow> Message option list \<Rightarrow> server
    \<Rightarrow> outcome \<times> server" where
  "readLoop ws clientName ks [] s = (Reading, s)"
| "readLoop ws clientName ks (None # reads) s = (Returned, Close ws (leave ws clientName ks s))"
| "readLoop ws clientName ks (Some msg # reads) s =
     readLoop ws clientName ks reads (chan_send (forward clientName msg) s)"

text \<open>
  The whole function. \<open>upgraded\<close> says whether \<open>upgrader.Upgrade\<close> succeeds; on failure
  \<open>log.Fatal\<close> ends the process and no deferred call runs. \<open>reads\<close> are the results of
  the \<open>ReadJSON\<close> calls, the first one being the join message; \<open>wok\<close> says whether the
  \<open>WriteJSON\<close> of the snapshot succeeds; \<open>ks\<close> and \<open>ks'\<close> are the iteration orders of the
  \<open>getOnlineUsers\<close> calls at the join and at the leave.
\<close>

definition handleConnections :: "conn \<Rightarrow> bool \<Rightarrow> Message option list \<Rightarrow> bool \<Rightarrow> string list
    \<Rightarrow> string list \<Rightarrow> server \<Rightarrow> outcome \<times> server" where
  "handleConnections ws upgraded reads wok ks ks' s =
     (if \<not> upgraded then (Fatal, s)
      else case reads of
        [] \<Rightarrow> (Reading, s)
      | None # rest \<Rightarrow> (Returned, Close ws s)
      | Some joinMsg # rest \<Rightarrow>
          if Name joinMsg = [] then (Returned, Close ws s)
          else
            let clientName = Name joinMsg;
                (currentOnlineUsers, s1) = register ws clientName ks s
            in if \<not> wok then (Returned, Close ws (rollback ws clientName s1))
               else readLoop ws clientName ks' rest
                      (chan_send (join_msg clientName)
                         (written ws (presence_msg currentOnlineUsers) s1)))"

subsection \<open>handleBroadcast\<close>

text \<open>The test of lines 97 to 101 that makes the loop \<open>continue\<close>.\<close>

definition skips :: "Message \<Rightarrow> string \<Rightarrow> bool" where
  "skips msg name \<longleftrightarrow> Type msg = online_users \<and> Name msg \<noteq> [] \<and> name = Name msg"

text \<open>Lines 106 to 110: what follows a failed \<open>WriteJSON\<close>.\<close>

definition evict :: "conn \<Rightarrow> string \<Rightarrow> server \<Rightarrow> server" where
  "evict client name s =
     (let s1 = Close client s;
          s2 = Lock s1;
          s3 = delete_client client s2;
          s4 = delete_online name s3
      in Unlock s4)"

text \<open>
  The inner loop of lines 96 to 112 for one message. \<open>cs\<close> is the order in which the
  \<open>range\<close> over \<open>clients\<close> visits the connections, \<open>fails c\<close> says whether the write to \<open>c\<close>
  fails. An entry that is gone when its turn comes is not visited.
\<close>

fun fanout :: "Message \<Rightarrow> (conn \<Rightarrow> bool) \<Rightarrow> conn list \<Rightarrow> server \<Rightarrow> server" where
  "fanout msg fails [] s = s"
| "fanout msg fails (client # cs) s =
     (case clients s client of
        None \<Rightarrow> fanout msg fails cs s
      | Some name \<Rightarrow>
          if skips msg name then fanout msg fails cs s
          else if fails client then fanout msg fails cs (evict client name s)
          else fanout msg fails cs (written client msg s))"

text \<open>One turn of the outer loop: take the oldest message and fan it out. The \<open>range\<close>
  reads \<open>clients\<close> outside the lock. With nothing in the channel the loop is blocked.\<close>

definition deliver :: "(conn \<Rightarrow> bool) \<Rightarrow> conn list \<Rightarrow> server \<Rightarrow> server" where
  "deliver fails cs s =
     (case broadcast s of
        [] \<Rightarrow> s
      | msg # queue \<Rightarrow> fanout msg fails cs (touch ReadClients (s\<lparr>broadcast := queue\<rparr>)))"

text \<open>The outer loop, one pair of transport choices for each message taken.\<close>

fun handleBroadcast :: "((conn \<Rightarrow> bool) \<times> conn list) list \<Rightarrow> server \<Rightarrow> server" where
  "handleBroadcast [] s = s"
| "handleBroadcast ((fails, cs) # env) s = handleBroadcast env (deliver fails cs s)"

subsection \<open>The pieces of the leave and of the roll-back\<close>

text \<open>
  The handler deletes its entry of \<open>clients\<close> before it takes the lock (lines 61 and 77),
  so another goroutine can run between that statement and the locked statements that
  follow. These are the locked statements of lines 62 to 64 and of lines 78 to 81.
\<close>

definition rollback_locked :: "string \<Rightarrow> server \<Rightarrow> server" where
  "rollback_locked clientName s =
     (let s2 = Lock s;
          s3 = delete_online clientName s2
      in Unlock s3)"

definition leave_locked :: "string \<Rightarrow> string list \<Rightarrow> server \<Rightarrow> string list \<times> server" where
  "leave_locked clientName ks s =
     (let s2 = Lock s;
          s3 = delete_online clientName s2;
          (currentOnlineUsers, s4) = getOnlineUsers ks s3;
          s5 = Unlock s4
      in (currentOnlineUsers, s5))"

subsection \<open>The running system\<close>

text \<open>
  The goroutines interleave. A step is one statement of one goroutine that touches the
  shared state outside the lock, or one locked section as a whole; a statement that
  touches nothing shared is taken together with the step that follows it. The state of
  the system is the package state together with the place each goroutine has reached.

  A handler that has registered is at one of these places, each with its \<open>clientName\<close>:
  before the write of the snapshot (line 57, with the list to send), before the send of
  the join notice (line 69), in the read of the loop (line 74), between the two deletions
  of the roll-back (after line 61), between the two deletions of the leave (after line
  77), before the send of the leave notice (line 82), and before the send of the presence
  update (line 83), the last two with the list taken at line 80.
\<close>

datatype place =
  Snapshot string "string list"
| Announce string
| Loop string
| Undo string
| Leaving string
| Notify_leave string "string list"
| Notify_presence string "string list"




text \<open>
  The broadcaster waits for a message (\<open>Idle\<close>), or is in the \<open>range\<close> for a message
  (\<open>Iter\<close>, with the connections that were in \<open>clients\<close> when the \<open>range\<close> began and the
  connections visited so far), or has read an entry of \<open>clients\<close> and is in the
  \<open>WriteJSON\<close> to that connection (\<open>Sending\<close>, with the entry read).
\<close>

datatype loop_place =
  Idle
| Iter Message "conn list" "conn list"
| Sending Message "conn list" "conn list" conn string


fun current :: "loop_place \<Rightarrow> Message option" where
  "current Idle = None"
| "current (Iter msg todo visited) = Some msg"
| "current (Sending msg todo visited client name) = Some msg"

text \<open>\<open>used\<close> lists the connections accepted so far (every upgrade yields a new one) and
  \<open>names\<close> the names registered so far.\<close>

record system =
  srv :: server
  handlers :: "conn \<rightharpoonup> place"
  used :: "conn list"
  names :: "string list"
  bc :: loop_place

definition start :: system where
  "start = \<lparr>srv = init, handlers = Map.empty, used = [], names = [], bc = Idle\<rparr>"

text \<open>
  The steps. Of a handler: \<open>Accept\<close>, the first read and, for a join message with a name,
  the registration of lines 49 to 54; \<open>Write\<close>, the write of the snapshot and, when it
  fails, line 61; \<open>Recv\<close>, one read of the loop and, for a message, its send on the
  channel, for an error, line 77; \<open>Advance\<close>, the one step there is from any other place
  (a send on the channel, or the locked statements of the roll-back or of the leave). Of
  the broadcaster: \<open>Take\<close>, it receives the oldest message and the \<open>range\<close> begins;
  \<open>Visit\<close>, the \<open>range\<close> yields an entry not visited yet, and the test of lines 97 to 101
  is made; \<open>Sent\<close>, the \<open>WriteJSON\<close> returns and, when it failed, lines 106 to 110 run;
  \<open>Finish\<close>, the \<open>range\<close> ends, every entry that was there when it began having been
  visited or deleted (an entry made during the \<open>range\<close> may be visited or not).

  The channel is unbuffered: in the program a handler that sends waits until the
  broadcaster receives. Here a send puts the message into the queue \<open>broadcast\<close> and
  \<open>Take\<close> removes the oldest one; a run of the program is the run here in which every
  send is followed by its \<open>Take\<close> as soon as the broadcaster is \<open>Idle\<close>.

  The result of a step is \<open>None\<close> when the step cannot happen in the state. With \<open>x\<close>
  set, a join with a name that was registered before cannot happen either: these are the
  runs in which no two connections join with the same name.
\<close>

datatype event =
  Accept conn "Message option" "string list"
| Write conn bool
| Recv conn "Message option"
| Advance conn "string list"
| Take
| Visit conn
| Sent bool
| Finish

fun step :: "bool \<Rightarrow> system \<Rightarrow> event \<Rightarrow> system option" where
  "step x c (Accept ws r ks) =
     (if ws \<in> set (used c) then None
      else case r of
        None \<Rightarrow> Some (c\<lparr>srv := Close ws (srv c), used := ws # used c\<rparr>)
      | Some joinMsg \<Rightarrow>
          if Name joinMsg = [] then Some (c\<lparr>srv := Close ws (srv c), used := ws # used c\<rparr>)
          else if x \<and> Name joinMsg \<in> set (names c) then None
          else
            let clientName = Name joinMsg;
                (currentOnlineUsers, s1) = register ws clientName ks (srv c)
            in Some (c\<lparr>srv := s1,
                       handlers := (handlers c)(ws \<mapsto> Snapshot clientName currentOnlineUsers),
                       used := ws # used c,
                       names := clientName # names c\<rparr>))"
| "step x c (Write ws wok) =
     (case handlers c ws of
        Some (Snapshot clientName currentOnlineUsers) \<Rightarrow>
          if wok
          then Some (c\<lparr>srv := written ws (presence_msg currentOnlineUsers) (srv c),
                       handlers := (handlers c)(ws \<mapsto> Announce clientName)\<rparr>)
          else Some (c\<lparr>srv := delete_client ws (srv c),
                       handlers := (handlers c)(ws \<mapsto> Undo clientName)\<rparr>)
      | _ \<Rightarrow> None)"
| "step x c (Recv ws r) =
     (case handlers c ws of
        Some (Loop clientName) \<Rightarrow>
          (case r of
             Some msg \<Rightarrow> Some (c\<lparr>srv := chan_send (forward clientName msg) (srv c)\<rparr>)
           | None \<Rightarrow> Some (c\<lparr>srv := delete_client ws (srv c),
                              handlers := (handlers c)(ws \<mapsto> Leaving clientName)\<rparr>))
      | _ \<Rightarrow> None)"
| "step x c (Advance ws ks) =
     (case handlers c ws of
        Some (Announce clientName) \<Rightarrow>
          Some (c\<lparr>srv := chan_send (join_msg clientName) (srv c),
                  handlers := (handlers c)(ws \<mapsto> Loop clientName)\<rparr>)
      | Some (Undo clientName) \<Rightarrow>
          Some (c\<lparr>srv := Close ws (rollback_locked clientName (srv c)),
                  handlers := (handlers c)(ws := None)\<rparr>)
      | Some (Leaving clientName) \<Rightarrow>
          (let (currentOnlineUsers, s1) = leave_locked clientName ks (srv c)
           in Some (c\<lparr>srv := s1,
                      handlers := (handlers c)(ws \<mapsto> Notify_leave clientName
                                    currentOnlineUsers)\<rparr>))
      | Some (Notify_leave clientName currentOnlineUsers) \<Rightarrow>
          Some (c\<lparr>srv := chan_send (leave_msg clientName) (srv c),
                  handlers := (handlers c)(ws \<mapsto> Notify_presence clientName
                                currentOnlineUsers)\<rparr>)
      | Some (Notify_presence clientName currentOnlineUsers) \<Rightarrow>
          Some (c\<lparr>srv := Close ws (chan_send (presence_msg currentOnlineUsers) (srv c)),
                  handlers := (handlers c)(ws := None)\<rparr>)
      | _ \<Rightarrow> None)"
| "step x c Take =
     (case bc c of
        Idle \<Rightarrow>
          (case broadcast (srv c) of
             [] \<Rightarrow> None
           | msg # queue \<Rightarrow>
               Some (c\<lparr>srv := touch ReadClients ((srv c)\<lparr>broadcast := queue\<rparr>),
                       bc := Iter msg (range_keys (clients (srv c)) (used c)) []\<rparr>))
      | _ \<Rightarrow> None)"
| "step x c (Visit client) =
     (case bc c of
        Iter msg todo visited \<Rightarrow>
          if client \<in> set visited then None
          else (case clients (srv c) client of
                  None \<Rightarrow> None
                | Some name \<Rightarrow>
                    if skips msg name then Some (c\<lparr>bc := Iter msg todo (client # visited)\<rparr>)
                    else Some (c\<lparr>bc := Sending msg todo visited client name\<rparr>))
      | _ \<Rightarrow> None)"
| "step x c (Sent ok) =
     (case bc c of
        Sending msg todo visited client name \<Rightarrow>
          Some (c\<lparr>srv := (if ok then written client msg (srv c) else evict client name (srv c)),
                  bc := Iter msg todo (client # visited)\<rparr>)
      | _ \<Rightarrow> None)"
| "step x c Finish =
     (case bc c of
        Iter msg todo visited \<Rightarrow>
          if list_all (\<lambda>k. k \<in> set visited \<or> clients (srv c) k = None) todo
          then Some (c\<lparr>bc := Idle\<rparr>) else None
      | _ \<Rightarrow> None)"

fun run :: "bool \<Rightarrow> system \<Rightarrow> event list \<Rightarrow> system option" where
  "run x c [] = Some c"
| "run x c (e # es) = (case step x c e of None \<Rightarrow> None | Some c' \<Rightarrow> run x c' es)"










text \<open>A message of type \<open>online_users\<close> has an empty \<open>Name\<close>; and a state in which every
  message in the channel, every message written to a connection and the message the
  broadcaster is fanning out is of that kind.\<close>

definition unnamed_presence :: "Message \<Rightarrow> bool" where
  "unnamed_presence m \<longleftrightarrow> (Type m = online_users \<longrightarrow> Name m = [])"

definition msgs_inv :: "system \<Rightarrow> bool" where
  "msgs_inv c \<longleftrightarrow>
     (\<forall>m \<in> set (broadcast (srv c)). unnamed_presence m) \<and>
     (\<forall>k. \<forall>m \<in> set (wire (srv c) k). unnamed_presence m) \<and>
     (\<forall>m. current (bc c) = Some m \<longrightarrow> unnamed_presence m)"

subsection \<open>Example runs\<close>

definition join_as :: "string \<Rightarrow> Message option" where
  "join_as name = Some \<lparr>Type = ''join'', Name = name, Content = [], Users = []\<rparr>"

definition all_ok :: "conn \<Rightarrow> bool" where
  "all_ok c = False"

text \<open>Alice joins on connection 0, then Bob on connection 1; each join notice is taken by
  the broadcaster as soon as it is sent, and written to every registered connection.\<close>

definition alice_bob :: "event list" where
  "alice_bob =
     [Accept 0 (join_as ''Alice'') [''Alice''], Write 0 True, Advance 0 [],
      Take, Visit 0, Sent True, Finish,
      Accept 1 (join_as ''Bob'') [''Alice'', ''Bob''], Write 1 True, Advance 1 [],
      Take, Visit 0, Sent True, Visit 1, Sent True, Finish]"

text \<open>Then the read on Alice's connection fails and her handler deletes its entry of
  \<open>clients\<close>: it is between its two deletions.\<close>

definition alice_gone :: "event list" where
  "alice_gone = alice_bob @ [Recv 0 None]"

text \<open>The handler runs its locked statements and sends the leave notice, which the
  broadcaster takes.\<close>

definition leave_taken :: "event list" where
  "leave_taken = alice_gone @ [Advance 0 [''Bob''], Advance 0 [], Take]"

text \<open>The leave notice is written to Bob, and the handler sends the presence update.\<close>

definition presence_sent :: "event list" where
  "presence_sent = leave_taken @ [Visit 1, Sent True, Finish, Advance 0 []]"

text \<open>The presence update is taken and written to Bob.\<close>

definition alice_leaves :: "event list" where
  "alice_leaves = presence_sent @ [Take, Visit 1, Sent True, Finish]"

text \<open>Two connections join as \<open>Ann\<close>; then the read on the first one fails and its handler
  runs to its end.\<close>

definition two_anns :: "event list" where
  "two_anns =
     [Accept 0 (join_as ''Ann'') [''Ann''], Write 0 True, Advance 0 [],
      Take, Visit 0, Sent True, Finish,
      Accept 1 (join_as ''Ann'') [''Ann''], Write 1 True, Advance 1 [],
      Take, Visit 0, Sent True, Visit 1, Sent True, Finish,
      Recv 0 None, Advance 0 [],
      Advance 0 [], Take, Visit 1, Sent True, Finish,
      Advance 0 [], Take, Visit 1, Sent True, Finish]"

section \<open>Basic facts\<close>

text \<open>What each piece of the code does to each field of the state.\<close>

lemma foldl_snoc: "foldl (\<lambda>users user. users @ [user]) acc xs = acc @ xs"
  by (induction xs arbitrary: acc) simp_all

lemma touch_fields [simp]:
  "clients (touch a s) = clients s"
  "onlineUsers (touch a s) = onlineUsers s"
  "broadcast (touch a s) = broadcast s"
  "wire (touch a s) = wire s"
  "closed (touch a s) = closed s"
  "mu (touch a s) = mu s"
  by (simp_all add: touch_def)

lemma getOnlineUsers_fst: "fst (getOnlineUsers ks s) = range_keys (onlineUsers s) ks"
  by (simp add: getOnlineUsers_def foldl_snoc)

lemma register_fields:
  "fst (register ws n ks s) = range_keys ((onlineUsers s)(n \<mapsto> True)) ks"
  "clients (snd (register ws n ks s)) = (clients s)(ws \<mapsto> n)"
  "onlineUsers (snd (register ws n ks s)) = (onlineUsers s)(n \<mapsto> True)"
  "broadcast (snd (register ws n ks s)) = broadcast s"
  "wire (snd (register ws n ks s)) = wire s"
  "closed (snd (register ws n ks s)) = closed s"
  by (simp_all add: register_def getOnlineUsers_def foldl_snoc Lock_def Unlock_def
      set_online_def set_client_def Let_def)

lemma rollback_fields:
  "clients (rollback ws n s) = (clients s)(ws := None)"
  "onlineUsers (rollback ws n s) = (onlineUsers s)(n := None)"
  "broadcast (rollback ws n s) = broadcast s"
  "wire (rollback ws n s) = wire s"
  "closed (rollback ws n s) = closed s"
  by (simp_all add: rollback_def Lock_def Unlock_def delete_online_def delete_client_def Let_def)

lemma leave_fields:
  "clients (leave ws n ks s) = (clients s)(ws := None)"
  "onlineUsers (leave ws n ks s) = (onlineUsers s)(n := None)"
  "broadcast (leave ws n ks s) = broadcast s @
     [leave_msg n, presence_msg (range_keys ((onlineUsers s)(n := None)) ks)]"
  "wire (leave ws n ks s) = wire s"
  "closed (leave ws n ks s) = closed s"
  by (simp_all add: leave_def getOnlineUsers_def foldl_snoc Lock_def Unlock_def
      delete_online_def delete_client_def chan_send_def Let_def)

lemma evict_fields:
  "clients (evict c n s) = (clients s)(c := None)"
  "onlineUsers (evict c n s) = (onlineUsers s)(n := None)"
  "broadcast (evict c n s) = broadcast s"
  "wire (evict c n s) = wire s"
  "closed (evict c n s) = insert c (closed s)"
  by (simp_all add: evict_def Lock_def Unlock_def delete_online_def delete_client_def
      Close_def Let_def)

lemma written_fields:
  "clients (written c m s) = clients s"
  "onlineUsers (written c m s) = onlineUsers s"
  "broadcast (written c m s) = broadcast s"
  "wire (written c m s) = (wire s)(c := wire s c @ [m])"
  "closed (written c m s) = closed s"
  by (simp_all add: written_def)

lemma chan_send_fields:
  "clients (chan_send m s) = clients s"
  "onlineUsers (chan_send m s) = onlineUsers s"
  "broadcast (chan_send m s) = broadcast s @ [m]"
  "wire (chan_send m s) = wire s"
  "closed (chan_send m s) = closed s"
  by (simp_all add: chan_send_def)

lemma Close_fields:
  "clients (Close c s) = clients s"
  "onlineUsers (Close c s) = onlineUsers s"
  "broadcast (Close c s) = broadcast s"
  "wire (Close c s) = wire s"
  "closed (Close c s) = insert c (closed s)"
  by (simp_all add: Close_def)


lemmas op_fields = register_fields rollback_fields leave_fields evict_fields written_fields
  chan_send_fields Close_fields

lemma fanout_broadcast: "broadcast (fanout msg fails cs s) = broadcast s"
  by (induction cs arbitrary: s) (simp_all add: op_fields split: option.splits)

lemma fanout_absent:
  "c \<notin> set cs \<Longrightarrow>
     clients (fanout msg fails cs s) c = clients s c \<and>
     wire (fanout msg fails cs s) c = wire s c \<and>
     (c \<in> closed (fanout msg fails cs s) \<longleftrightarrow> c \<in> closed s)"
  by (induction cs arbitrary: s) (auto simp: op_fields split: option.splits)

lemma fanout_member:
  "distinct cs \<Longrightarrow> c \<in> set cs \<Longrightarrow> clients s c = Some name \<Longrightarrow> \<not> skips msg name \<Longrightarrow>
     (fails c \<longrightarrow> clients (fanout msg fails cs s) c = None \<and> c \<in> closed (fanout msg fails cs s)
        \<and> wire (fanout msg fails cs s) c = wire s c) \<and>
     (\<not> fails c \<longrightarrow> clients (fanout msg fails cs s) c = Some name
        \<and> wire (fanout msg fails cs s) c = wire s c @ [msg])"
proof (induction cs arbitrary: s)
  case Nil
  then show ?case by simp
next
  case (Cons d cs)
  show ?case
  proof (cases "d = c")
    case True
    with Cons.prems have "c \<notin> set cs" by simp
    from fanout_absent [OF this] True Cons.prems show ?thesis
      by (simp add: op_fields)
  next
    case False
    with Cons.prems have c: "c \<in> set cs" and d: "distinct cs" by simp_all
    show ?thesis
    proof (cases "clients s d")
      case None
      with Cons.IH [OF d c Cons.prems(3,4)] show ?thesis by simp
    next
      case (Some n)
      have e: "clients (evict d n s) c = Some name" "clients (written d msg s) c = Some name"
        using False Cons.prems(3) by (simp_all add: op_fields)
      have w: "wire (evict d n s) c = wire s c" "wire (written d msg s) c = wire s c"
        using False by (simp_all add: op_fields)
      from Cons.IH [OF d c e(1) Cons.prems(4)] Cons.IH [OF d c e(2) Cons.prems(4)]
        Cons.IH [OF d c Cons.prems(3,4)] Some w
      show ?thesis by simp
    qed
  qed
qed

lemma readLoop_forward:
  "readLoop ws clientName ks (map Some msgs) s =
     (Reading, s\<lparr>broadcast := broadcast s @ map (forward clientName) msgs\<rparr>)"
  by (induction msgs arbitrary: s) (simp_all add: chan_send_def)

lemma handleConnections_joined:
  "Name joinMsg \<noteq> [] \<Longrightarrow>
   handleConnections ws True (Some joinMsg # rest) True ks ks' s =
     readLoop ws (Name joinMsg) ks' rest
       (chan_send (join_msg (Name joinMsg))
          (written ws (presence_msg (fst (register ws (Name joinMsg) ks s)))
             (snd (register ws (Name joinMsg) ks s))))"
  by (simp add: handleConnections_def Let_def split_def)

lemma fanout_unguarded:
  "\<not> mu s \<Longrightarrow> unguarded (fanout msg fails cs s) = unguarded s \<and> \<not> mu (fanout msg fails cs s)"
proof (induction cs arbitrary: s)
  case Nil
  then show ?case by simp
next
  case (Cons c cs)
  have e: "unguarded (evict c n s) = unguarded s" "\<not> mu (evict c n s)" for n
    by (simp_all add: evict_def Close_def Lock_def Unlock_def delete_client_def
        delete_online_def touch_def Let_def)
  have w: "unguarded (written c msg s) = unguarded s" "\<not> mu (written c msg s)"
    using Cons.prems by (simp_all add: written_def)
  show ?case
    using Cons.IH [OF Cons.prems] Cons.IH [OF e(2)] Cons.IH [OF w(2)] e(1) w(1)
    by (simp split: option.splits)
qed

section \<open>The handler\<close>

text \<open>
  C7. Every message read from a joined connection goes on the channel with \<open>Type\<close> set to
  \<open>message\<close> and \<open>Name\<close> set to the name of the join message, whatever \<open>Type\<close> and \<open>Name\<close>
  the client sent: after the join notice, the messages the handler has put on the channel
  carry exactly these two values, one for each message read.
\<close>

theorem forwarded_type_and_name_forced:
  assumes "Name joinMsg \<noteq> []"
  shows "map (\<lambda>m. (Type m, Name m))
           (drop (Suc (length (broadcast s)))
              (broadcast (snd (handleConnections ws True (Some joinMsg # map Some msgs) True
                 ks ks' s))))
         = replicate (length msgs) (''message'', Name joinMsg)"
proof -
  have "map (\<lambda>m. (Type m, Name m)) (map (forward n) msgs) = replicate (length msgs) (''message'', n)"
    for n
    by (induction msgs) (simp_all add: forward_def)
  then show ?thesis
    using assms by (simp add: handleConnections_joined readLoop_forward op_fields)
qed

text \<open>The join message \<open>Alice\<close> followed by two messages that claim to be a presence
  update from \<open>Bob\<close> and a message from nobody.\<close>

theorem forwarded_type_and_name_forced_witness:
  "map (\<lambda>m. (Type m, Name m))
     (drop (Suc (length (broadcast init)))
        (broadcast (snd (handleConnections 0 True
           (Some \<lparr>Type = ''join'', Name = ''Alice'', Content = [], Users = []\<rparr> #
            map Some [\<lparr>Type = ''online_users'', Name = ''Bob'', Content = ''hi'', Users = []\<rparr>,
                      \<lparr>Type = [], Name = [], Content = ''ho'', Users = [''Eve'']\<rparr>])
           True [''Alice''] [] init))))
   = [(''message'', ''Alice''), (''message'', ''Alice'')]"
  using forwarded_type_and_name_forced
    [of "\<lparr>Type = ''join'', Name = ''Alice'', Content = [], Users = []\<rparr>" init 0
        "[\<lparr>Type = ''online_users'', Name = ''Bob'', Content = ''hi'', Users = []\<rparr>,
          \<lparr>Type = [], Name = [], Content = ''ho'', Users = [''Eve'']\<rparr>]" "[''Alice'']" "[]"]
  by (simp add: numeral_2_eq_2)

text \<open>
  C10. When a message read from a joined client is forwarded, only \<open>Type\<close> and \<open>Name\<close> are
  overwritten: \<open>Content\<close> and \<open>Users\<close> of the message put on the channel are the ones the
  client sent, so a \<open>Users\<close> array supplied by the client is broadcast unchanged in a
  payload of type \<open>message\<close>.
\<close>

theorem forward_keeps_content_users:
  "readLoop ws clientName ks (map Some msgs) s =
     (Reading, s\<lparr>broadcast := broadcast s @
        map (\<lambda>msg. \<lparr>Type = ''message'', Name = clientName, Content = Content msg,
                     Users = Users msg\<rparr>) msgs\<rparr>)"
proof -
  have "forward clientName = (\<lambda>msg. \<lparr>Type = ''message'', Name = clientName,
      Content = Content msg, Users = Users msg\<rparr>)"
    by (rule ext) (simp add: forward_def)
  then show ?thesis using readLoop_forward [of ws clientName ks msgs s] by simp
qed

text \<open>
  C8. When the first read of a new connection fails, or yields a join message with an
  empty name, the handler returns and the connection is closed; nothing else changes, so
  \<open>clients\<close> and \<open>onlineUsers\<close> are as before and nothing is put on the channel.
\<close>

theorem handshake_failure_no_effect:
  "handleConnections ws True (None # rest) wok ks ks' s
     = (Returned, s\<lparr>closed := insert ws (closed s)\<rparr>) \<and>
   handleConnections ws True (Some (joinMsg\<lparr>Name := []\<rparr>) # rest) wok ks ks' s
     = (Returned, s\<lparr>closed := insert ws (closed s)\<rparr>)"
  by (simp add: handleConnections_def Close_def)

text \<open>
  C4. A transport error is meant to end the handling of its own connection only. When the
  upgrade fails, the handler calls \<open>log.Fatal\<close>, which ends the server process.
\<close>

theorem upgrade_failure_is_fatal:
  "handleConnections ws False reads wok ks ks' s = (Fatal, s)"
  by (simp add: handleConnections_def)

text \<open>
  C3. Every read and every write of \<open>clients\<close> and \<open>onlineUsers\<close> is meant to happen
  with \<open>mu\<close> held. Starting with \<open>mu\<close> free, the handler deletes its entry of \<open>clients\<close>
  before it takes the lock, after a failed read as well as in the roll-back, and the
  broadcaster ranges over \<open>clients\<close> without the lock; the registration of lines 49 to 54
  makes no access outside the lock.
\<close>

theorem maps_accessed_without_lock:
  "unguarded (snd (readLoop ws clientName ks [None] (s\<lparr>mu := False\<rparr>)))
     = unguarded s @ [WriteClients] \<and>
   unguarded (rollback ws clientName (s\<lparr>mu := False\<rparr>)) = unguarded s @ [WriteClients] \<and>
   unguarded (deliver fails cs (s\<lparr>mu := False, broadcast := msg # queue\<rparr>))
     = unguarded s @ [ReadClients] \<and>
   unguarded (snd (register ws clientName ks (s\<lparr>mu := False\<rparr>))) = unguarded s"
proof -
  have "unguarded (snd (readLoop ws clientName ks [None] (s\<lparr>mu := False\<rparr>)))
     = unguarded s @ [WriteClients]"
    by (simp add: leave_def Close_def Lock_def Unlock_def delete_client_def delete_online_def
        getOnlineUsers_def chan_send_def touch_def Let_def)
  moreover have "unguarded (rollback ws clientName (s\<lparr>mu := False\<rparr>)) = unguarded s @ [WriteClients]"
    by (simp add: rollback_def Lock_def Unlock_def delete_client_def delete_online_def
        touch_def Let_def)
  moreover have "unguarded (deliver fails cs (s\<lparr>mu := False, broadcast := msg # queue\<rparr>))
     = unguarded s @ [ReadClients]"
    using fanout_unguarded [of "touch ReadClients (s\<lparr>mu := False, broadcast := queue\<rparr>)" msg fails cs]
    by (simp add: deliver_def touch_def)
  moreover have "unguarded (snd (register ws clientName ks (s\<lparr>mu := False\<rparr>))) = unguarded s"
    by (simp add: register_def Lock_def Unlock_def set_client_def set_online_def
        getOnlineUsers_def touch_def Let_def)
  ultimately show ?thesis by blast
qed

section \<open>The broadcaster\<close>



section \<open>Evaluating runs\<close>

lemma skips_own [simp]:
  "\<not> skips (join_msg n) name" "\<not> skips (leave_msg n) name" "\<not> skips (presence_msg us) name"
  by (simp_all add: skips_def join_msg_def leave_msg_def presence_msg_def online_users_def)

lemma accept_joined:
  "n \<noteq> [] \<Longrightarrow> handleConnections ws True [join_as n] True ks ks' s =
     (Reading, chan_send (join_msg n)
        (written ws (presence_msg (range_keys ((onlineUsers s)(n \<mapsto> True)) ks))
           (snd (register ws n ks s))))"
  by (simp add: handleConnections_def join_as_def Let_def split_def register_fields)

lemma init_fields:
  "clients init = Map.empty" "onlineUsers init = Map.empty" "broadcast init = []"
  "wire init = (\<lambda>c. [])" "closed init = {}"
  by (simp_all add: init_def)

lemma range_keys_simps:
  "range_keys m [] = []"
  "range_keys m (k # ks) = (if k \<in> dom m then k # range_keys m ks else range_keys m ks)"
  by (auto simp: range_keys_def)

lemma rollback_locked_fields:
  "clients (rollback_locked n s) = clients s"
  "onlineUsers (rollback_locked n s) = (onlineUsers s)(n := None)"
  "broadcast (rollback_locked n s) = broadcast s"
  "wire (rollback_locked n s) = wire s"
  "closed (rollback_locked n s) = closed s"
  by (simp_all add: rollback_locked_def Lock_def Unlock_def delete_online_def Let_def)

lemma leave_locked_fields:
  "fst (leave_locked n ks s) = range_keys ((onlineUsers s)(n := None)) ks"
  "clients (snd (leave_locked n ks s)) = clients s"
  "onlineUsers (snd (leave_locked n ks s)) = (onlineUsers s)(n := None)"
  "broadcast (snd (leave_locked n ks s)) = broadcast s"
  "wire (snd (leave_locked n ks s)) = wire s"
  "closed (snd (leave_locked n ks s)) = closed s"
  by (simp_all add: leave_locked_def getOnlineUsers_def foldl_snoc Lock_def Unlock_def
      delete_online_def Let_def)

lemma delete_client_fields:
  "clients (delete_client ws s) = (clients s)(ws := None)"
  "onlineUsers (delete_client ws s) = onlineUsers s"
  "broadcast (delete_client ws s) = broadcast s"
  "wire (delete_client ws s) = wire s"
  "closed (delete_client ws s) = closed s"
  by (simp_all add: delete_client_def)

text \<open>The two deletions of the roll-back and of the leave, put together again.\<close>

lemma rollback_pieces: "rollback ws n s = rollback_locked n (delete_client ws s)"
  by (simp add: rollback_def rollback_locked_def Let_def)

lemma leave_pieces:
  "leave ws n ks s =
     chan_send (presence_msg (fst (leave_locked n ks (delete_client ws s))))
       (chan_send (leave_msg n) (snd (leave_locked n ks (delete_client ws s))))"
  by (simp add: leave_def leave_locked_def Let_def split_def)

lemmas piece_fields = rollback_locked_fields leave_locked_fields delete_client_fields

lemmas eval_simps = accept_joined deliver_def op_fields init_fields all_ok_def range_keys_simps

lemmas example_defs = alice_bob_def alice_gone_def leave_taken_def presence_sent_def
  alice_leaves_def two_anns_def

lemmas run_simps = op_fields piece_fields init_fields range_keys_simps start_def join_as_def
  Let_def split_def

section \<open>The presence snapshots\<close>

lemma range_keys_order:
  "iteration_order m ks \<Longrightarrow> distinct (range_keys m ks) \<and> set (range_keys m ks) = dom m"
  by (auto simp: iteration_order_def range_keys_def)

lemma readLoop_wire: "wire (snd (readLoop ws n ks reads s)) = wire s"
  by (induction ws n ks reads s rule: readLoop.induct) (simp_all add: op_fields)

lemma fanout_clients_None:
  "clients s c = None \<Longrightarrow> clients (fanout msg fails cs s) c = None"
  by (induction cs arbitrary: s) (simp_all add: op_fields split: option.splits)

lemma fanout_closed: "c \<in> closed s \<Longrightarrow> c \<in> closed (fanout msg fails cs s)"
  by (induction cs arbitrary: s) (simp_all add: op_fields split: option.splits)

lemma singleton_list:
  assumes "distinct xs" "set xs = {y}"
  shows "xs = [y]"
proof -
  from distinct_card [OF assms(1)] assms(2) have "length xs = 1" by simp
  then obtain x where "xs = [x]" by (cases xs) auto
  with assms(2) show ?thesis by simp
qed

text \<open>
  C2 says that the snapshot written to a client that has just joined leaves out the
  client's own name: empty for Alice joining alone, exactly the names online before for
  the second joiner. That fails: the handler sets \<open>onlineUsers[clientName]\<close> before it
  calls \<open>getOnlineUsers\<close>, so Alice joining alone is sent \<open>Alice\<close>, and Bob joining after
  her is sent \<open>Alice\<close> and \<open>Bob\<close>.
\<close>

theorem join_snapshot_counterexample:
  "wire (snd (handleConnections 0 True [join_as ''Alice''] True [''Alice''] [] init)) 0 =
     [\<lparr>Type = ''online_users'', Name = [], Content = [], Users = [''Alice'']\<rparr>] \<and>
   hd (wire (srv (the (run False start alice_bob))) 1) =
     \<lparr>Type = ''online_users'', Name = [], Content = [], Users = [''Alice'', ''Bob'']\<rparr>"
proof -
  have "wire (snd (handleConnections 0 True [join_as ''Alice''] True [''Alice''] [] init)) 0 =
      [presence_msg [''Alice'']]"
    by (simp add: eval_simps)
  moreover have "hd (wire (srv (the (run False start alice_bob))) 1) =
      presence_msg [''Alice'', ''Bob'']"
    by (simp add: alice_bob_def run_simps)
  ultimately show ?thesis by (simp add: presence_msg_def online_users_def)
qed

text \<open>
  C2, amended. The snapshot written to a client that has just joined holds the names that
  were online before the join together with the client's own name, each once, in the order
  of the iteration: a client joining with nobody online is sent just its own name, and the
  second joiner is sent the first one's name and its own.
\<close>

theorem join_snapshot_includes_self:
  assumes "Name joinMsg \<noteq> []"
    and "iteration_order ((onlineUsers s)(Name joinMsg \<mapsto> True)) ks"
  shows "wire (snd (handleConnections ws True (Some joinMsg # rest) True ks ks' s)) ws =
           wire s ws @ [\<lparr>Type = ''online_users'', Name = [], Content = [],
             Users = range_keys ((onlineUsers s)(Name joinMsg \<mapsto> True)) ks\<rparr>] \<and>
         distinct (range_keys ((onlineUsers s)(Name joinMsg \<mapsto> True)) ks) \<and>
         set (range_keys ((onlineUsers s)(Name joinMsg \<mapsto> True)) ks) =
           insert (Name joinMsg) (dom (onlineUsers s))"
  using assms(1) range_keys_order [OF assms(2)]
  by (simp add: handleConnections_joined readLoop_wire op_fields presence_msg_def
      online_users_def)

theorem join_snapshot_includes_self_witness:
  "wire (snd (handleConnections 1 True [join_as ''Bob''] True [''Alice'', ''Bob''] []
           (init\<lparr>clients := [0 \<mapsto> ''Alice''], onlineUsers := [''Alice'' \<mapsto> True]\<rparr>))) 1 =
     [\<lparr>Type = ''online_users'', Name = [], Content = [], Users = [''Alice'', ''Bob'']\<rparr>]"
proof -
  let ?s = "init\<lparr>clients := [0 \<mapsto> ''Alice''], onlineUsers := [''Alice'' \<mapsto> True]\<rparr>"
  let ?m = "\<lparr>Type = ''join'', Name = ''Bob'', Content = [], Users = []\<rparr>"
  have h: "Name ?m \<noteq> []"
    "iteration_order ((onlineUsers ?s)(Name ?m \<mapsto> True)) [''Alice'', ''Bob'']"
    by (simp_all add: iteration_order_def init_def)
  from join_snapshot_includes_self [OF h, of 1 "[]" "[]"] show ?thesis
    by (simp add: join_as_def init_def range_keys_simps)
qed

text \<open>
  C5 says that when Alice's connection fails while Bob is the only other client, Bob gets
  a leave notice and then a presence update with an empty list of users. That fails in the
  list: the snapshot taken after Alice's name is deleted still holds Bob's own name.
\<close>

theorem leave_notices_counterexample:
  "wire (srv (the (run False start alice_leaves))) 1 =
     [\<lparr>Type = ''online_users'', Name = [], Content = [], Users = [''Alice'', ''Bob'']\<rparr>,
      \<lparr>Type = ''join'', Name = [], Content = ''Bob'' @ joined_text, Users = []\<rparr>,
      \<lparr>Type = ''leave'', Name = [], Content = ''Alice'' @ left_text, Users = []\<rparr>,
      \<lparr>Type = ''online_users'', Name = [], Content = [], Users = [''Bob'']\<rparr>]"
proof -
  have "wire (srv (the (run False start alice_leaves))) 1 =
      [presence_msg [''Alice'', ''Bob''], join_msg ''Bob'', leave_msg ''Alice'',
       presence_msg [''Bob'']]"
    by (simp add: example_defs run_simps)
  then show ?thesis
    by (simp add: presence_msg_def join_msg_def leave_msg_def online_users_def)
qed

text \<open>
  C5, amended. Alice (connection \<open>a\<close>, name \<open>na\<close>) and Bob (connection \<open>b\<close>, a different
  name \<open>nb\<close>) are the only names online and the channel is empty. When the read on Alice's
  connection fails, the handler returns, her connection is closed and out of \<open>clients\<close>,
  and once the broadcaster has taken the two messages, with the writes to Bob succeeding,
  Bob has been sent the leave notice followed by a presence update whose list of users is
  exactly Bob's own name. (Any order in which the \<open>range\<close> over \<open>clients\<close> visits the
  connections holds \<open>b\<close> once, since Bob stays registered.)
\<close>

theorem leave_notices_reach_other:
  assumes ab: "a \<noteq> b" "na \<noteq> nb"
    and s: "clients s b = Some nb" "dom (onlineUsers s) = {na, nb}" "broadcast s = []"
    and ks: "iteration_order ((onlineUsers s)(na := None)) ks"
    and cs: "distinct cs1" "b \<in> set cs1" "distinct cs2" "b \<in> set cs2"
    and ok: "\<not> f1 b" "\<not> f2 b"
  shows "fst (readLoop a na ks [None] s) = Returned \<and>
         clients (handleBroadcast [(f1, cs1), (f2, cs2)] (snd (readLoop a na ks [None] s))) a
           = None \<and>
         a \<in> closed (handleBroadcast [(f1, cs1), (f2, cs2)] (snd (readLoop a na ks [None] s))) \<and>
         wire (handleBroadcast [(f1, cs1), (f2, cs2)] (snd (readLoop a na ks [None] s))) b
           = wire s b @
             [\<lparr>Type = ''leave'', Name = [], Content = na @ left_text, Users = []\<rparr>,
              \<lparr>Type = ''online_users'', Name = [], Content = [], Users = [nb]\<rparr>]"
proof -
  let ?us = "range_keys ((onlineUsers s)(na := None)) ks"
  let ?s1 = "Close a (leave a na ks s)"
  let ?t1 = "touch ReadClients (?s1\<lparr>broadcast := [presence_msg ?us]\<rparr>)"
  let ?s2 = "fanout (leave_msg na) f1 cs1 ?t1"
  let ?t2 = "touch ReadClients (?s2\<lparr>broadcast := []\<rparr>)"
  let ?s3 = "fanout (presence_msg ?us) f2 cs2 ?t2"
  have "dom ((onlineUsers s)(na := None)) = {nb}"
    using s(2) ab(2) by auto
  with range_keys_order [OF ks] have us: "?us = [nb]"
    by (simp add: singleton_list)
  have r: "readLoop a na ks [None] s = (Returned, ?s1)" by simp
  have b1: "broadcast ?s1 = [leave_msg na, presence_msg ?us]"
    using s(3) by (simp add: op_fields)
  then have d1: "deliver f1 cs1 ?s1 = ?s2" by (simp add: deliver_def)
  have "broadcast ?s2 = [presence_msg ?us]" by (simp add: fanout_broadcast)
  then have d2: "deliver f2 cs2 ?s2 = ?s3" by (simp add: deliver_def)
  have hb: "handleBroadcast [(f1, cs1), (f2, cs2)] ?s1 = ?s3"
    by (simp add: d1 d2)
  have c1: "clients ?t1 b = Some nb" "wire ?t1 b = wire s b"
    using ab(1) s(1) by (simp_all add: op_fields)
  from fanout_member [OF cs(1,2) c1(1) skips_own(2), of f1 na] ok(1) c1(2)
  have m2: "clients ?s2 b = Some nb" "wire ?s2 b = wire s b @ [leave_msg na]"
    by simp_all
  then have c2: "clients ?t2 b = Some nb" "wire ?t2 b = wire s b @ [leave_msg na]"
    by simp_all
  from fanout_member [OF cs(3,4) c2(1) skips_own(3), of f2 ?us] ok(2) c2(2)
  have m3: "wire ?s3 b = wire s b @ [leave_msg na, presence_msg ?us]"
    by simp
  have "clients ?t1 a = None" by (simp add: op_fields)
  then have "clients ?s2 a = None" by (rule fanout_clients_None)
  then have "clients ?t2 a = None" by simp
  then have a3: "clients ?s3 a = None" by (rule fanout_clients_None)
  have "a \<in> closed ?t1" by (simp add: op_fields)
  then have "a \<in> closed ?s2" by (rule fanout_closed)
  then have "a \<in> closed ?t2" by simp
  then have a4: "a \<in> closed ?s3" by (rule fanout_closed)
  show ?thesis
    using m3 a3 a4 us unfolding r snd_conv fst_conv hb
    by (simp add: leave_msg_def presence_msg_def online_users_def)
qed

theorem leave_notices_reach_other_witness:
  "clients (handleBroadcast [(all_ok, [1]), (all_ok, [1])]
      (snd (readLoop 0 ''Alice'' [''Bob''] [None]
         (init\<lparr>clients := [0 \<mapsto> ''Alice'', 1 \<mapsto> ''Bob''],
               onlineUsers := [''Alice'' \<mapsto> True, ''Bob'' \<mapsto> True]\<rparr>)))) 0 = None \<and>
   wire (handleBroadcast [(all_ok, [1]), (all_ok, [1])]
      (snd (readLoop 0 ''Alice'' [''Bob''] [None]
         (init\<lparr>clients := [0 \<mapsto> ''Alice'', 1 \<mapsto> ''Bob''],
               onlineUsers := [''Alice'' \<mapsto> True, ''Bob'' \<mapsto> True]\<rparr>)))) 1 =
     [\<lparr>Type = ''leave'', Name = [], Content = ''Alice'' @ left_text, Users = []\<rparr>,
      \<lparr>Type = ''online_users'', Name = [], Content = [], Users = [''Bob'']\<rparr>]"
proof -
  let ?s = "init\<lparr>clients := [0 \<mapsto> ''Alice'', 1 \<mapsto> ''Bob''],
                 onlineUsers := [''Alice'' \<mapsto> True, ''Bob'' \<mapsto> True]\<rparr>"
  have h: "(0::nat) \<noteq> 1" "''Alice'' \<noteq> ''Bob''" "clients ?s 1 = Some ''Bob''"
    "dom (onlineUsers ?s) = {''Alice'', ''Bob''}" "broadcast ?s = []"
    "iteration_order ((onlineUsers ?s)(''Alice'' := None)) [''Bob'']"
    "distinct [1::nat]" "(1::nat) \<in> set [1]" "distinct [1::nat]" "(1::nat) \<in> set [1]"
    "\<not> all_ok 1" "\<not> all_ok 1"
    by (auto simp: init_def iteration_order_def all_ok_def)
  have "wire ?s 1 = []" by (simp add: init_def)
  with leave_notices_reach_other [where ?f1.0 = all_ok and ?f2.0 = all_ok and a = 0, OF h]
  show ?thesis by simp
qed

section \<open>The steps and the handler's code\<close>

text \<open>
  The steps of one handler, run with no other goroutine in between, do to the package
  state what \<open>handleConnections\<close> and \<open>readLoop\<close> do: for a join, for a join whose
  snapshot cannot be written, and for a failed read in the loop.
\<close>

lemma join_steps:
  assumes "ws \<notin> set (used c)" "Name m \<noteq> []" "\<not> (x \<and> Name m \<in> set (names c))"
  shows "map_option srv (run x c [Accept ws (Some m) ks, Write ws True, Advance ws []]) =
           Some (snd (handleConnections ws True [Some m] True ks ks' (srv c)))"
  using assms by (simp add: handleConnections_def Let_def split_def)

lemma rollback_steps:
  assumes "ws \<notin> set (used c)" "Name m \<noteq> []" "\<not> (x \<and> Name m \<in> set (names c))"
  shows "map_option srv (run x c [Accept ws (Some m) ks, Write ws False, Advance ws []]) =
           Some (snd (handleConnections ws True [Some m] False ks ks' (srv c)))"
  using assms by (simp add: handleConnections_def Let_def split_def rollback_pieces)

lemma leave_steps:
  assumes "handlers c ws = Some (Loop n)"
  shows "map_option srv (run x c [Recv ws None, Advance ws ks, Advance ws [], Advance ws []]) =
           Some (snd (readLoop ws n ks [None] (srv c)))"
  using assms by (simp add: Let_def split_def leave_pieces)

section \<open>The registry along a run\<close>

























section \<open>The messages along a run\<close>

lemma unnamed_own:
  "unnamed_presence (join_msg n)" "unnamed_presence (leave_msg n)"
  "unnamed_presence (presence_msg us)" "unnamed_presence (forward n m)"
  by (simp_all add: unnamed_presence_def join_msg_def leave_msg_def presence_msg_def
      forward_def online_users_def)

lemma unnamed_not_skipped: "unnamed_presence m \<Longrightarrow> \<not> skips m name"
  by (auto simp: unnamed_presence_def skips_def)

lemma step_msgs_inv: "msgs_inv c \<Longrightarrow> step x c e = Some c' \<Longrightarrow> msgs_inv c'"
proof (cases e)
  case (Accept ws r ks)
  assume "msgs_inv c" "step x c e = Some c'"
  with Accept show ?thesis
    by (auto simp: msgs_inv_def op_fields Let_def split_def split: if_splits option.splits)
next
  case (Write ws wok)
  assume "msgs_inv c" "step x c e = Some c'"
  with Write show ?thesis
    by (auto simp: msgs_inv_def op_fields piece_fields unnamed_own
        split: if_splits option.splits place.splits)
next
  case (Recv ws r)
  assume "msgs_inv c" "step x c e = Some c'"
  with Recv show ?thesis
    by (auto simp: msgs_inv_def op_fields piece_fields unnamed_own
        split: if_splits option.splits place.splits)
next
  case (Advance ws ks)
  assume "msgs_inv c" "step x c e = Some c'"
  with Advance show ?thesis
    by (auto simp: msgs_inv_def op_fields piece_fields unnamed_own Let_def split_def
        split: if_splits option.splits place.splits)
next
  case Take
  assume "msgs_inv c" "step x c e = Some c'"
  with Take show ?thesis
    by (auto simp: msgs_inv_def split: loop_place.splits list.splits)
next
  case (Visit client)
  assume "msgs_inv c" "step x c e = Some c'"
  with Visit show ?thesis
    by (auto simp: msgs_inv_def split: loop_place.splits option.splits if_splits)
next
  case (Sent ok)
  assume "msgs_inv c" "step x c e = Some c'"
  with Sent show ?thesis
    by (auto simp: msgs_inv_def op_fields split: loop_place.splits if_splits)
next
  case Finish
  assume "msgs_inv c" "step x c e = Some c'"
  with Finish show ?thesis
    by (auto simp: msgs_inv_def split: loop_place.splits if_splits)
qed

lemma run_msgs_inv: "run x c es = Some c' \<Longrightarrow> msgs_inv c \<Longrightarrow> msgs_inv c'"
proof (induction es arbitrary: c)
  case Nil
  then show ?case by simp
next
  case (Cons e es)
  from Cons.prems(1) obtain d where d: "step x c e = Some d" "run x d es = Some c'"
    by (auto split: option.splits)
  from Cons.IH [OF d(2) step_msgs_inv [OF Cons.prems(2) d(1)]] show ?case .
qed

text \<open>
  C9. Every message of type \<open>online_users\<close> that the program makes has an empty \<open>Name\<close>,
  and so the test of lines 97 to 101 never skips a recipient. In every state a run from
  the start reaches, each message waiting in the channel and the message the broadcaster
  is fanning out is either not of type \<open>online_users\<close> or has an empty \<open>Name\<close>, and is
  skipped for no recipient name; and each message that was written to a connection, by the
  handler's snapshot or by the broadcaster, is either not of type \<open>online_users\<close> or has an
  empty \<open>Name\<close>.
\<close>

theorem presence_never_named:
  assumes "run x start es = Some c"
  shows "(\<forall>m \<in> set (broadcast (srv c)).
            (Type m = ''online_users'' \<longrightarrow> Name m = []) \<and> (\<forall>name. \<not> skips m name)) \<and>
         (\<forall>k. \<forall>m \<in> set (wire (srv c) k). Type m = ''online_users'' \<longrightarrow> Name m = []) \<and>
         (\<forall>m. current (bc c) = Some m \<longrightarrow>
            (Type m = ''online_users'' \<longrightarrow> Name m = []) \<and> (\<forall>name. \<not> skips m name))"
proof -
  have "msgs_inv start" by (simp add: msgs_inv_def start_def init_def)
  from run_msgs_inv [OF assms this] have "msgs_inv c" .
  then show ?thesis
    using unnamed_not_skipped
    by (auto simp: msgs_inv_def unnamed_presence_def online_users_def)
qed

theorem presence_never_named_witness:
  "presence_msg [''Bob''] \<in> set (broadcast (srv (the (run False start presence_sent)))) \<and>
   Type (presence_msg [''Bob'']) = ''online_users'' \<and>
   Name (presence_msg [''Bob'']) = [] \<and>
   \<not> skips (presence_msg [''Bob'']) ''Bob'' \<and>
   presence_msg [''Alice'', ''Bob''] \<in> set (wire (srv (the (run False start presence_sent))) 1) \<and>
   current (bc (the (run False start leave_taken))) = Some (leave_msg ''Alice'') \<and>
   \<not> skips (leave_msg ''Alice'') ''Bob''"
proof -
  let ?c = "the (run False start presence_sent)"
  let ?d = "the (run False start leave_taken)"
  have r: "run False start presence_sent = Some ?c"
    by (simp add: example_defs run_simps)
  have m: "presence_msg [''Bob''] \<in> set (broadcast (srv ?c))"
    "presence_msg [''Alice'', ''Bob''] \<in> set (wire (srv ?c) 1)"
    by (simp_all add: example_defs run_simps)
  have t: "Type (presence_msg [''Bob'']) = ''online_users''"
    by (simp add: presence_msg_def online_users_def)
  have r': "run False start leave_taken = Some ?d"
    by (simp add: example_defs run_simps)
  have m': "current (bc ?d) = Some (leave_msg ''Alice'')"
    by (simp add: example_defs run_simps)
  from presence_never_named [OF r] presence_never_named [OF r'] m m' t show ?thesis
    by blast
qed

end
